theory Spec2Isabelle
  imports Main "HOL-Library.Word"
begin

section \<open>Bytes, strings and errors\<close>

text \<open>
  A Go \<open>byte\<close> (\<open>uint8\<close>) is an 8-bit word. A Go \<open>string\<close> is an immutable sequence of
  bytes, and \<open>[]byte(str)\<close> and \<open>string(data)\<close> copy it unchanged, so strings and byte
  slices are both lists of bytes.
\<close>

type_synonym byte = "8 word"
type_synonym gostring = "byte list"

text \<open>
  The error values of \<open>serial.go\<close>: the three \<open>fmt.Errorf\<close> messages of the package
  (with the formatted arguments kept), \<open>io.EOF\<close> (what \<open>bytes.Buffer\<close> returns), the
  errors of the transport and of the operating system, which the package never inspects,
  and the run-time panics of the statements the package executes (a nil \<open>sp.port\<close>,
  \<open>close\<close> of a nil or closed channel, a send on a closed channel, \<open>regexp.MustCompile\<close>
  on a pattern that does not compile).
\<close>

datatype error =
    ErrNotOpen
  | ErrAlreadyOpen gostring
  | ErrUnableToOpen gostring error
  | ErrTimeout
  | EOF
  | ErrTransport nat
  | PanicNilPort
  | PanicCloseOfNilChannel
  | PanicCloseOfClosedChannel
  | PanicSendOnClosedChannel
  | PanicRegexpCompile

definition EOL_DEFAULT :: byte where
  "EOL_DEFAULT = 10"

section \<open>The receive buffer: \<open>bytes.Buffer\<close>\<close>

text \<open>
  \<open>sp.buff\<close> is a \<open>*bytes.Buffer\<close> of the Go standard library. Its observable state is
  the unread part \<open>b.buf[b.off:]\<close>, which is what the list stands for. The operations
  follow \<open>bytes/buffer.go\<close>:
  \<^item> \<open>NewBuffer(buf)\<close> takes \<open>buf\<close> as the initial contents;
  \<^item> \<open>Reset\<close> empties the buffer; \<open>Len\<close> is the number of unread bytes;
  \<^item> \<open>Write(p)\<close> appends \<open>p\<close> and never fails;
  \<^item> \<open>ReadByte\<close> returns \<open>io.EOF\<close> when nothing is unread, else the first unread byte;
  \<^item> \<open>ReadString(delim)\<close> is \<open>readSlice\<close>: with \<open>i = IndexByte(b.buf[b.off:], delim)\<close>,
    \<open>end = b.off + i + 1\<close>, and when \<open>i < 0\<close> then \<open>end = len(b.buf)\<close> and
    \<open>err = io.EOF\<close>; the line is \<open>b.buf[b.off:end]\<close> and \<open>b.off = end\<close> in both cases.
\<close>

type_synonym Buffer = "byte list"

definition NewBuffer :: "byte list \<Rightarrow> Buffer" where
  "NewBuffer buf = buf"

definition Buffer_Reset :: "Buffer \<Rightarrow> Buffer" where
  "Buffer_Reset b = []"

definition Buffer_Len :: "Buffer \<Rightarrow> nat" where
  "Buffer_Len b = length b"

definition Buffer_Write :: "Buffer \<Rightarrow> byte list \<Rightarrow> Buffer" where
  "Buffer_Write b p = b @ p"

definition Buffer_ReadByte :: "Buffer \<Rightarrow> (byte \<times> error option) \<times> Buffer" where
  "Buffer_ReadByte b = (case b of [] \<Rightarrow> ((0, Some EOF), []) | c # cs \<Rightarrow> ((c, None), cs))"

text \<open>\<open>bytes.IndexByte\<close>: the index of the first \<open>c\<close>, \<open>None\<close> for Go's \<open>-1\<close>.\<close>

fun IndexByte :: "byte list \<Rightarrow> byte \<Rightarrow> nat option" where
  "IndexByte [] c = None"
| "IndexByte (b # bs) c = (if b = c then Some 0 else map_option Suc (IndexByte bs c))"

definition Buffer_ReadString :: "Buffer \<Rightarrow> byte \<Rightarrow> (gostring \<times> error option) \<times> Buffer" where
  "Buffer_ReadString b delim =
     (case IndexByte b delim of
        None \<Rightarrow> ((b, Some EOF), [])
      | Some i \<Rightarrow> ((take (i + 1) b, None), drop (i + 1) b))"

section \<open>The device transport\<close>

text \<open>
  \<open>sp.port\<close> is an \<open>io.ReadWriteCloser\<close> obtained from \<open>openPort\<close>, which is not part of
  \<open>serial.go\<close>. The transport is a record of the calls made on it so far and of what it
  answers: \<open>on_write\<close> and \<open>on_close\<close> give the result of a call from the calls before it,
  so any deterministic device is an instance. \<open>Read\<close> is only called by the reader loop.
\<close>

datatype call = WriteCall "byte list" | CloseCall

record Transport =
  calls :: "call list"
  on_write :: "call list \<Rightarrow> byte list \<Rightarrow> nat \<times> error option"
  on_close :: "call list \<Rightarrow> error option"

definition Transport_Write :: "Transport \<Rightarrow> byte list \<Rightarrow> (nat \<times> error option) \<times> Transport" where
  "Transport_Write t data = (on_write t (calls t) data, t\<lparr>calls := calls t @ [WriteCall data]\<rparr>)"

definition Transport_Close :: "Transport \<Rightarrow> error option \<times> Transport" where
  "Transport_Close t = (on_close t (calls t), t\<lparr>calls := calls t @ [CloseCall]\<rparr>)"

section \<open>The port handle\<close>

text \<open>A channel as the sequential operations see it: nil, made, or closed.\<close>

datatype chan = NilChan | OpenChan | ClosedChan

record SerialPort =
  port :: "Transport option"
  name :: gostring
  baud :: int
  eol :: byte
  rxChar :: chan
  closeReqChann :: chan
  closeAckChann :: chan
  buff :: Buffer
  portIsOpen :: bool

text \<open>The calls made on the transport of a handle; none when \<open>sp.port\<close> is nil.\<close>

definition transport_calls :: "SerialPort \<Rightarrow> call list" where
  "transport_calls sp = (case port sp of None \<Rightarrow> [] | Some t \<Rightarrow> calls t)"

definition New :: SerialPort where
  "New = \<lparr>port = None, name = [], baud = 0, eol = EOL_DEFAULT, rxChar = NilChan,
          closeReqChann = NilChan, closeAckChann = NilChan,
          buff = NewBuffer (replicate 256 0), portIsOpen = False\<rparr>"

text \<open>
  \<open>Open\<close>: \<open>openPort\<close> is the platform's function, taken as a parameter. The two
  goroutines it starts are modelled separately (the reader loop below).
\<close>

definition Open ::
  "(gostring \<Rightarrow> int \<Rightarrow> int \<Rightarrow> error + Transport) \<Rightarrow> SerialPort \<Rightarrow> gostring \<Rightarrow> int \<Rightarrow> int list
     \<Rightarrow> error option \<times> SerialPort" where
  "Open openPort sp nm bd timeout =
     (if portIsOpen sp then (Some (ErrAlreadyOpen nm), sp)
      else
        let readTimeout = (case timeout of [] \<Rightarrow> 0 | t # _ \<Rightarrow> t) in
        case openPort nm bd readTimeout of
          Inl err \<Rightarrow> (Some (ErrUnableToOpen nm err), sp)
        | Inr comPort \<Rightarrow>
            (None, sp\<lparr>name := nm, baud := bd, port := Some comPort, portIsOpen := True,
                      buff := Buffer_Reset (buff sp), rxChar := OpenChan\<rparr>))"

text \<open>\<open>close(ch)\<close> panics on a nil and on a closed channel.\<close>

definition close_chan :: "chan \<Rightarrow> error + chan" where
  "close_chan c = (case c of NilChan \<Rightarrow> Inl PanicCloseOfNilChannel
                   | ClosedChan \<Rightarrow> Inl PanicCloseOfClosedChannel
                   | OpenChan \<Rightarrow> Inr ClosedChan)"

definition Close :: "SerialPort \<Rightarrow> error option \<times> SerialPort" where
  "Close sp =
     (if portIsOpen sp then
        (let sp1 = sp\<lparr>portIsOpen := False\<rparr> in
         case close_chan (rxChar sp1) of
           Inl p \<Rightarrow> (Some p, sp1)
         | Inr c \<Rightarrow>
             (let sp2 = sp1\<lparr>rxChar := c\<rparr> in
              case port sp2 of
                None \<Rightarrow> (Some PanicNilPort, sp2)
              | Some t \<Rightarrow> (let (err, t') = Transport_Close t in (err, sp2\<lparr>port := Some t'\<rparr>))))
      else (None, sp))"

definition Write :: "SerialPort \<Rightarrow> byte list \<Rightarrow> (nat \<times> error option) \<times> SerialPort" where
  "Write sp data =
     (if portIsOpen sp then
        (case port sp of
           None \<Rightarrow> ((0, Some PanicNilPort), sp)
         | Some t \<Rightarrow> (let (r, t') = Transport_Write t data in (r, sp\<lparr>port := Some t'\<rparr>)))
      else ((0, Some ErrNotOpen), sp))"

text \<open>\<open>Print\<close> calls \<open>sp.port.Write\<close> as a statement: both results are dropped.\<close>

definition Print :: "SerialPort \<Rightarrow> gostring \<Rightarrow> error option \<times> SerialPort" where
  "Print sp str =
     (if portIsOpen sp then
        (case port sp of
           None \<Rightarrow> (Some PanicNilPort, sp)
         | Some t \<Rightarrow> (let (r, t') = Transport_Write t str in (None, sp\<lparr>port := Some t'\<rparr>)))
      else (Some ErrNotOpen, sp))"

definition Println :: "SerialPort \<Rightarrow> gostring \<Rightarrow> error option \<times> SerialPort" where
  "Println sp str = Print sp (str @ [13, 10])"

text \<open>\<open>Printf\<close>: \<open>fmt.Sprintf\<close> is the standard library's, taken as a parameter.\<close>

definition Printf ::
  "(gostring \<Rightarrow> 'a list \<Rightarrow> gostring) \<Rightarrow> SerialPort \<Rightarrow> gostring \<Rightarrow> 'a list \<Rightarrow> error option \<times> SerialPort" where
  "Printf Sprintf sp format args =
     (let str = (if length args > 0 then Sprintf format args else format) in Print sp str)"

definition Read :: "SerialPort \<Rightarrow> (byte \<times> error option) \<times> SerialPort" where
  "Read sp =
     (if portIsOpen sp then
        (let (r, b') = Buffer_ReadByte (buff sp) in (r, sp\<lparr>buff := b'\<rparr>))
      else ((0, Some ErrNotOpen), sp))"

text \<open>
  \<open>removeEOL\<close>: the loop appends to \<open>data\<close> every byte that is neither \<open>'\r'\<close> (13) nor
  \<open>'\n'\<close> (10).
\<close>

definition removeEOL :: "gostring \<Rightarrow> gostring" where
  "removeEOL line =
     foldl (\<lambda>data b. if b = 13 then data else if b = 10 then data else data @ [b]) [] line"

definition ReadLine :: "SerialPort \<Rightarrow> (gostring \<times> error option) \<times> SerialPort" where
  "ReadLine sp =
     (if portIsOpen sp then
        (let ((line, err), b') = Buffer_ReadString (buff sp) (eol sp);
             sp' = sp\<lparr>buff := b'\<rparr>
         in case err of
              Some e \<Rightarrow> (([], Some e), sp')
            | None \<Rightarrow> ((removeEOL line, None), sp'))
      else (([], Some ErrNotOpen), sp))"

definition Available :: "SerialPort \<Rightarrow> nat" where
  "Available sp = Buffer_Len (buff sp)"

definition EOL :: "SerialPort \<Rightarrow> byte \<Rightarrow> SerialPort" where
  "EOL sp c = sp\<lparr>eol := c\<rparr>"

section \<open>Sending a file\<close>

text \<open>
  \<open>SendFile\<close> writes the file in slices of at most \<open>q = 512\<close> bytes while
  \<open>sentBytes <= fileSize\<close>. It does not read \<open>sp.portIsOpen\<close>. The result of
  \<open>ioutil.ReadFile\<close> is a parameter; \<open>time.Sleep\<close> changes no state.
\<close>

function SendFile_loop :: "Transport \<Rightarrow> byte list \<Rightarrow> nat \<Rightarrow> error option \<times> Transport" where
  "SendFile_loop t file sentBytes =
     (if sentBytes \<le> length file then
        (case Transport_Write t
                (if length (drop sentBytes file) > 512
                 then take 512 (drop sentBytes file) else drop sentBytes file) of
           ((n, Some err), t') \<Rightarrow> (Some err, t')
         | ((n, None), t') \<Rightarrow> SendFile_loop t' file (sentBytes + 512))
      else (None, t))"
  by pat_completeness auto
termination
  by (relation "measure (\<lambda>(t, file, sentBytes). length file + 1 - sentBytes)") auto

declare SendFile_loop.simps [simp del]

definition SendFile :: "SerialPort \<Rightarrow> error + byte list \<Rightarrow> error option \<times> SerialPort" where
  "SendFile sp readFile =
     (case readFile of
        Inl err \<Rightarrow> (Some err, sp)
      | Inr file \<Rightarrow>
          (case port sp of
             None \<Rightarrow> (Some PanicNilPort, sp)
           | Some t \<Rightarrow> (let (err, t') = SendFile_loop t file 0 in (err, sp\<lparr>port := Some t'\<rparr>))))"

section \<open>Runs of appends and reads on the receive buffer\<close>

text \<open>
  The reader loop appends each chunk it reads with \<open>sp.buff.Write(rxBuff[:n])\<close>; the
  caller removes bytes with \<open>Read\<close> and \<open>ReadLine\<close>.
\<close>

definition receive :: "SerialPort \<Rightarrow> byte list \<Rightarrow> SerialPort" where
  "receive sp chunk = sp\<lparr>buff := Buffer_Write (buff sp) chunk\<rparr>"

datatype op = Append "byte list" | DoRead | DoReadLine

text \<open>
  What a read did: \<open>ByteRead c b\<close> and \<open>LineRead c l\<close> are successful calls that removed
  the bytes \<open>c\<close> from the buffer and returned \<open>b\<close>, respectively \<open>l\<close>.
\<close>

datatype extraction =
    ByteRead "byte list" byte
  | LineRead "byte list" gostring
  | ReadFailed error
  | LineFailed error

text \<open>The bytes a call removed: the unread bytes before it that are no longer unread.\<close>

definition removed :: "SerialPort \<Rightarrow> SerialPort \<Rightarrow> byte list" where
  "removed sp sp' = take (length (buff sp) - length (buff sp')) (buff sp)"

fun apply_op :: "SerialPort \<Rightarrow> op \<Rightarrow> extraction list \<times> SerialPort" where
  "apply_op sp (Append chunk) = ([], receive sp chunk)"
| "apply_op sp DoRead =
     (case Read sp of
        ((b, None), sp') \<Rightarrow> ([ByteRead (removed sp sp') b], sp')
      | ((b, Some e), sp') \<Rightarrow> ([ReadFailed e], sp'))"
| "apply_op sp DoReadLine =
     (case ReadLine sp of
        ((l, None), sp') \<Rightarrow> ([LineRead (removed sp sp') l], sp')
      | ((l, Some e), sp') \<Rightarrow> ([LineFailed e], sp'))"

fun run_ops :: "SerialPort \<Rightarrow> op list \<Rightarrow> extraction list \<times> SerialPort" where
  "run_ops sp [] = ([], sp)"
| "run_ops sp (x # xs) =
     (let (l1, sp1) = apply_op sp x; (l2, sp2) = run_ops sp1 xs in (l1 @ l2, sp2))"

fun appended :: "op list \<Rightarrow> byte list" where
  "appended [] = []"
| "appended (Append chunk # xs) = chunk @ appended xs"
| "appended (x # xs) = appended xs"

fun returned :: "extraction list \<Rightarrow> byte list" where
  "returned [] = []"
| "returned (ByteRead c b # xs) = b # returned xs"
| "returned (LineRead c l # xs) = l @ returned xs"
| "returned (x # xs) = returned xs"

fun consumed :: "extraction list \<Rightarrow> byte list" where
  "consumed [] = []"
| "consumed (ByteRead c b # xs) = c @ consumed xs"
| "consumed (LineRead c l # xs) = c @ consumed xs"
| "consumed (x # xs) = consumed xs"

text \<open>
  What the code computes: a successful \<open>Read\<close> returns the byte it removed, a
  successful \<open>ReadLine\<close> returns \<open>removeEOL\<close> of the bytes it removed.
\<close>

fun faithful :: "extraction \<Rightarrow> bool" where
  "faithful (ByteRead c b) = (c = [b])"
| "faithful (LineRead c l) = (l = removeEOL c)"
| "faithful x = True"

text \<open>
  With the end-of-line byte \<open>e\<close>: a successful \<open>Read\<close> removed one byte and returned
  it; a successful \<open>ReadLine\<close> removed the bytes up to and including the first \<open>e\<close>.
\<close>

fun whole :: "byte \<Rightarrow> extraction \<Rightarrow> bool" where
  "whole e (ByteRead c b) = (c = [b])"
| "whole e (LineRead c l) = (c \<noteq> [] \<and> last c = e \<and> e \<notin> set (butlast c))"
| "whole e x = True"

text \<open>
  With the end-of-line byte \<open>e\<close>: a successful \<open>ReadLine\<close> returned the bytes it
  removed without the carriage returns and without the end-of-line byte.
\<close>

fun stripped :: "byte \<Rightarrow> extraction \<Rightarrow> bool" where
  "stripped e (LineRead c l) = (l = filter (\<lambda>b. b \<noteq> 13 \<and> b \<noteq> e) c)"
| "stripped e x = True"

section \<open>Waiting for a pattern: \<open>WaitForRegexTimeout\<close>\<close>

text \<open>
  The call starts a polling goroutine and blocks in a \<open>select\<close> on the result channel
  \<open>c1\<close> (capacity 1) and on \<open>time.After(timeout)\<close>; meanwhile the reader loop appends
  to \<open>sp.buff\<close>. The model is a state machine driven by a schedule, one event per step:
  \<^item> \<open>Arrive chunk\<close>: the reader loop executes \<open>sp.buff.Write\<close> on a chunk it read;
  \<^item> \<open>PollerStep\<close>: the polling goroutine executes its next statement on shared
    state: the loop condition \<open>!timeExpired\<close>; or, in the body, \<open>sp.ReadLine()\<close> (with
    \<open>FindAllString(line, -1)\<close> on the line it returns, which touches no shared state);
    or, when there is a match, the send \<open>c1 <- result[0]\<close> (with the \<open>break\<close>);
  \<^item> \<open>TimerFires\<close>: the timer's channel delivers, which makes the blocked \<open>select\<close> take
    the timeout case;
  \<^item> \<open>CallerStep\<close>: the caller, in the timeout case, executes \<open>timeExpired = true\<close> and
    returns the timeout error.
  The shared variables are read and written one step at a time, in the order of the
  schedule. The caller is blocked in \<open>select\<close> from the start, and a blocked \<open>select\<close>
  is completed by the first of its channels that becomes ready: a send on \<open>c1\<close> hands
  the value to the waiting caller, which returns it; a send when the caller has left
  the \<open>select\<close> stays in the channel's buffer. The duration of the timeout is not
  represented, only the moment the timer fires.

  \<open>regexp\<close> is the standard library's: \<open>compile exp\<close> stands for
  \<open>regexp.MustCompile(exp)\<close> (\<open>None\<close> when it panics) and the compiled pattern for its
  \<open>FindAllString(line, -1)\<close>, the successive non-overlapping matches in \<open>line\<close>.
\<close>

type_synonym regexp = "gostring \<Rightarrow> gostring list"

datatype poller_pc = AtLoopCheck | InBody | Sending gostring | Finished

datatype caller_pc = InSelect | TimerCase | Returned "gostring \<times> error option"

record wait_state =
  handle :: SerialPort
  timeExpired :: bool
  c1 :: "gostring option"
  poller :: poller_pc
  caller :: caller_pc

datatype event = Arrive "byte list" | PollerStep | TimerFires | CallerStep

definition wait_init :: "SerialPort \<Rightarrow> wait_state" where
  "wait_init sp = \<lparr>handle = sp, timeExpired = False, c1 = None, poller = AtLoopCheck,
                   caller = InSelect\<rparr>"

text \<open>The send \<open>c1 <- m\<close>.\<close>

definition deliver :: "wait_state \<Rightarrow> gostring \<Rightarrow> wait_state" where
  "deliver s m =
     (case caller s of
        InSelect \<Rightarrow> s\<lparr>caller := Returned (m, None)\<rparr>
      | _ \<Rightarrow> s\<lparr>c1 := Some m\<rparr>)"

fun wait_step :: "regexp \<Rightarrow> wait_state \<Rightarrow> event \<Rightarrow> wait_state" where
  "wait_step re s (Arrive chunk) = s\<lparr>handle := receive (handle s) chunk\<rparr>"
| "wait_step re s TimerFires =
     (case caller s of InSelect \<Rightarrow> s\<lparr>caller := TimerCase\<rparr> | _ \<Rightarrow> s)"
| "wait_step re s CallerStep =
     (case caller s of
        TimerCase \<Rightarrow> s\<lparr>timeExpired := True, caller := Returned ([], Some ErrTimeout)\<rparr>
      | _ \<Rightarrow> s)"
| "wait_step re s PollerStep =
     (case poller s of
        AtLoopCheck \<Rightarrow> (if \<not> timeExpired s then s\<lparr>poller := InBody\<rparr> else s\<lparr>poller := Finished\<rparr>)
      | InBody \<Rightarrow>
          (case ReadLine (handle s) of
             ((line, Some err), sp') \<Rightarrow> s\<lparr>handle := sp', poller := AtLoopCheck\<rparr>
           | ((line, None), sp') \<Rightarrow>
               (case re line of
                  [] \<Rightarrow> s\<lparr>handle := sp', poller := AtLoopCheck\<rparr>
                | m # ms \<Rightarrow> s\<lparr>handle := sp', poller := Sending m\<rparr>))
      | Sending m \<Rightarrow> deliver (s\<lparr>poller := Finished\<rparr>) m
      | Finished \<Rightarrow> s)"

fun wait_run :: "regexp \<Rightarrow> wait_state \<Rightarrow> event list \<Rightarrow> wait_state" where
  "wait_run re s [] = s"
| "wait_run re s (e # es) = wait_run re (wait_step re s e) es"

text \<open>What the call has returned; \<open>None\<close> while the caller is still in the call.\<close>

definition result :: "wait_state \<Rightarrow> (gostring \<times> error option) option" where
  "result s = (case caller s of Returned r \<Rightarrow> Some r | _ \<Rightarrow> None)"

definition WaitForRegexTimeout ::
  "(gostring \<Rightarrow> regexp option) \<Rightarrow> SerialPort \<Rightarrow> gostring \<Rightarrow> event list
     \<Rightarrow> (gostring \<times> error option) option \<times> SerialPort" where
  "WaitForRegexTimeout compile sp exp sched =
     (if portIsOpen sp then
        (case compile exp of
           None \<Rightarrow> (Some ([], Some PanicRegexpCompile), sp)
         | Some re \<Rightarrow> (let s = wait_run re (wait_init sp) sched in (result s, handle s)))
      else (Some ([], Some ErrNotOpen), sp))"

text \<open>The number of loop bodies the polling goroutine begins in a schedule.\<close>

fun begun :: "regexp \<Rightarrow> wait_state \<Rightarrow> event list \<Rightarrow> nat" where
  "begun re s [] = 0"
| "begun re s (e # es) =
     (if e = PollerStep \<and> poller s = InBody then 1 else 0) + begun re (wait_step re s e) es"

text \<open>
  The number of loop bodies of which the polling goroutine executes a statement in a
  schedule: those it begins, and the one it is in at the start when it executes its
  send.
\<close>

definition bodies :: "regexp \<Rightarrow> wait_state \<Rightarrow> event list \<Rightarrow> nat" where
  "bodies re s es =
     begun re s es
     + (case poller s of Sending m \<Rightarrow> (if PollerStep \<in> set es then 1 else 0) | _ \<Rightarrow> 0)"

text \<open>
  The \<open>select\<close> has taken the timeout case: the caller is about to set the flag, or
  has set it and returned the timeout error.
\<close>

definition timed_out :: "wait_state \<Rightarrow> bool" where
  "timed_out s = (caller s = TimerCase \<or> caller s = Returned ([], Some ErrTimeout) \<and> timeExpired s)"

text \<open>
  The steps the polling goroutine can still take once the flag is set: at the start
  of a body, \<open>ReadLine\<close> and then the send or the loop check; at the send, the send;
  at the loop check, the check.
\<close>

fun steps_left :: "poller_pc \<Rightarrow> nat" where
  "steps_left InBody = 2"
| "steps_left (Sending m) = 1"
| "steps_left AtLoopCheck = 1"
| "steps_left Finished = 0"

section \<open>The reader loop and \<open>Close\<close>, interleaved\<close>

text \<open>
  \<open>readSerialPort\<close> runs as a goroutine beside the caller, which may execute \<open>Close\<close>.
  Each statement that reads or writes \<open>sp.portIsOpen\<close>, \<open>sp.rxChar\<close>, \<open>sp.buff\<close> or
  the transport is one step of its thread, and a schedule says whose step is next:
  \<^item> reader loop: \<open>for sp.portIsOpen\<close>; \<open>n, _ := sp.port.Read(rxBuff)\<close>;
    \<open>sp.buff.Write(rxBuff[:n])\<close>; and for each byte \<open>b\<close> of \<open>rxBuff[:n]\<close>,
    \<open>if sp.portIsOpen\<close> and then \<open>sp.rxChar <- b\<close>;
  \<^item> \<open>Close\<close>: \<open>if sp.portIsOpen\<close>; \<open>sp.portIsOpen = false\<close>; \<open>close(sp.rxChar)\<close>;
    \<open>return sp.port.Close()\<close>.
  \<open>device\<close> lists what the successive \<open>sp.port.Read\<close> calls deliver (nothing when the
  list is exhausted: a read that times out). A send on the open channel is taken by the
  line assembler (\<open>relayed\<close>); a send on a closed channel panics, and a panic ends the
  program.
\<close>

datatype reader_pc =
    AtFor
  | AtPortRead
  | AtBuffWrite "byte list"
  | AtIf byte "byte list"
  | AtSend byte "byte list"
  | ReaderDone

datatype closer_pc = AtCloseIf | AtClearFlag | AtCloseChan | AtPortClose | CloseReturned "error option"

record loop_state =
  shared :: SerialPort
  reader :: reader_pc
  closer :: closer_pc
  device :: "byte list list"
  relayed :: "byte list"
  panicked :: "error option"

datatype thread = ReaderLoop | Closer

definition loop_init :: "SerialPort \<Rightarrow> byte list list \<Rightarrow> loop_state" where
  "loop_init sp dev = \<lparr>shared = sp, reader = AtFor, closer = AtCloseIf, device = dev,
                        relayed = [], panicked = None\<rparr>"

text \<open>The next iteration of \<open>for _, b := range rxBuff[:n]\<close>, or back to the outer loop.\<close>

definition next_range :: "byte list \<Rightarrow> reader_pc" where
  "next_range bs = (case bs of [] \<Rightarrow> AtFor | b # rest \<Rightarrow> AtIf b rest)"

definition reader_step :: "loop_state \<Rightarrow> loop_state" where
  "reader_step s =
     (case reader s of
        AtFor \<Rightarrow> (if portIsOpen (shared s) then s\<lparr>reader := AtPortRead\<rparr> else s\<lparr>reader := ReaderDone\<rparr>)
      | AtPortRead \<Rightarrow>
          (case device s of
             [] \<Rightarrow> s\<lparr>reader := AtBuffWrite []\<rparr>
           | chunk # later \<Rightarrow> s\<lparr>device := later, reader := AtBuffWrite chunk\<rparr>)
      | AtBuffWrite chunk \<Rightarrow> s\<lparr>shared := receive (shared s) chunk, reader := next_range chunk\<rparr>
      | AtIf b rest \<Rightarrow>
          (if portIsOpen (shared s) then s\<lparr>reader := AtSend b rest\<rparr>
           else s\<lparr>reader := next_range rest\<rparr>)
      | AtSend b rest \<Rightarrow>
          (case rxChar (shared s) of
             OpenChan \<Rightarrow> s\<lparr>relayed := relayed s @ [b], reader := next_range rest\<rparr>
           | ClosedChan \<Rightarrow> s\<lparr>panicked := Some PanicSendOnClosedChannel, reader := ReaderDone\<rparr>
           | NilChan \<Rightarrow> s)
      | ReaderDone \<Rightarrow> s)"

definition closer_step :: "loop_state \<Rightarrow> loop_state" where
  "closer_step s =
     (case closer s of
        AtCloseIf \<Rightarrow>
          (if portIsOpen (shared s) then s\<lparr>closer := AtClearFlag\<rparr>
           else s\<lparr>closer := CloseReturned None\<rparr>)
      | AtClearFlag \<Rightarrow> s\<lparr>shared := (shared s)\<lparr>portIsOpen := False\<rparr>, closer := AtCloseChan\<rparr>
      | AtCloseChan \<Rightarrow>
          (case close_chan (rxChar (shared s)) of
             Inl p \<Rightarrow> s\<lparr>panicked := Some p, closer := CloseReturned (Some p)\<rparr>
           | Inr c \<Rightarrow> s\<lparr>shared := (shared s)\<lparr>rxChar := c\<rparr>, closer := AtPortClose\<rparr>)
      | AtPortClose \<Rightarrow>
          (case port (shared s) of
             None \<Rightarrow> s\<lparr>panicked := Some PanicNilPort, closer := CloseReturned (Some PanicNilPort)\<rparr>
           | Some t \<Rightarrow>
               (let (err, t') = Transport_Close t
                in s\<lparr>shared := (shared s)\<lparr>port := Some t'\<rparr>, closer := CloseReturned err\<rparr>))
      | CloseReturned r \<Rightarrow> s)"

definition loop_step :: "loop_state \<Rightarrow> thread \<Rightarrow> loop_state" where
  "loop_step s th =
     (if panicked s \<noteq> None then s
      else case th of ReaderLoop \<Rightarrow> reader_step s | Closer \<Rightarrow> closer_step s)"

fun loop_run :: "loop_state \<Rightarrow> thread list \<Rightarrow> loop_state" where
  "loop_run s [] = s"
| "loop_run s (th # ths) = loop_run (loop_step s th) ths"

section \<open>Sequences of calls on a handle\<close>

text \<open>
  The public operations other than \<open>Open\<close>, as the calls a caller can make one after
  another, and the handle they leave. A call that panics ends the program; a run here
  goes on after it, which only adds runs.
\<close>

datatype 'a api =
    CallClose
  | CallWrite "byte list"
  | CallPrint gostring
  | CallPrintln gostring
  | CallPrintf gostring "'a list"
  | CallSendFile "error + byte list"
  | CallRead
  | CallReadLine
  | CallWaitForRegexTimeout gostring "event list"
  | CallAvailable
  | CallEOL byte

fun call_api ::
  "(gostring \<Rightarrow> 'a list \<Rightarrow> gostring) \<Rightarrow> (gostring \<Rightarrow> regexp option) \<Rightarrow> SerialPort \<Rightarrow> 'a api
     \<Rightarrow> SerialPort" where
  "call_api Sprintf compile sp CallClose = snd (Close sp)"
| "call_api Sprintf compile sp (CallWrite data) = snd (Write sp data)"
| "call_api Sprintf compile sp (CallPrint str) = snd (Print sp str)"
| "call_api Sprintf compile sp (CallPrintln str) = snd (Println sp str)"
| "call_api Sprintf compile sp (CallPrintf format args) = snd (Printf Sprintf sp format args)"
| "call_api Sprintf compile sp (CallSendFile readFile) = snd (SendFile sp readFile)"
| "call_api Sprintf compile sp CallRead = snd (Read sp)"
| "call_api Sprintf compile sp CallReadLine = snd (ReadLine sp)"
| "call_api Sprintf compile sp (CallWaitForRegexTimeout exp sched) =
     snd (WaitForRegexTimeout compile sp exp sched)"
| "call_api Sprintf compile sp CallAvailable = sp"
| "call_api Sprintf compile sp (CallEOL c) = EOL sp c"

fun call_all ::
  "(gostring \<Rightarrow> 'a list \<Rightarrow> gostring) \<Rightarrow> (gostring \<Rightarrow> regexp option) \<Rightarrow> SerialPort \<Rightarrow> 'a api list
     \<Rightarrow> SerialPort" where
  "call_all Sprintf compile sp [] = sp"
| "call_all Sprintf compile sp (c # cs) = call_all Sprintf compile (call_api Sprintf compile sp c) cs"

section \<open>Sample devices and inputs\<close>

text \<open>
  A device that accepts every write, a device whose writes fail, and the handle that
  \<open>New\<close> and a successful \<open>Open\<close> give on each.
\<close>

definition dev_ok :: Transport where
  "dev_ok = \<lparr>calls = [], on_write = (\<lambda>h data. (length data, None)), on_close = (\<lambda>h. None)\<rparr>"

definition dev_failing :: Transport where
  "dev_failing = \<lparr>calls = [], on_write = (\<lambda>h data. (0, Some (ErrTransport 5))),
                   on_close = (\<lambda>h. None)\<rparr>"

definition opened :: SerialPort where
  "opened = snd (Open (\<lambda>nm bd t. Inr dev_ok) New [116, 116, 121] 9600 [])"

definition opened_failing :: SerialPort where
  "opened_failing = snd (Open (\<lambda>nm bd t. Inr dev_failing) New [116, 116, 121] 9600 [])"

text \<open>
  A stand-in for \<open>regexp\<close> on non-empty patterns without metacharacters, which match
  themselves: the successive non-overlapping occurrences of the pattern in the line.
\<close>

fun find_literal :: "gostring \<Rightarrow> gostring \<Rightarrow> gostring list" where
  "find_literal pat [] = []"
| "find_literal pat (b # bs) =
     (if pat \<noteq> [] \<and> take (length pat) (b # bs) = pat
      then pat # find_literal pat (drop (length pat - 1) bs)
      else find_literal pat bs)"

definition compile_literal :: "gostring \<Rightarrow> regexp option" where
  "compile_literal exp = Some (find_literal exp)"

section \<open>Facts about the buffer\<close>

lemma IndexByte_None_iff: "IndexByte s c = None \<longleftrightarrow> c \<notin> set s"
  by (induction s) auto

lemma IndexByte_Some_takeWhile:
  "c \<in> set s \<Longrightarrow> IndexByte s c = Some (length (takeWhile (\<lambda>b. b \<noteq> c) s))"
  by (induction s) auto

lemma removeEOL_foldl:
  "foldl (\<lambda>data b. if b = 13 then data else if b = 10 then data else data @ [b]) acc line
     = acc @ filter (\<lambda>b. b \<noteq> (13::byte) \<and> b \<noteq> 10) line"
  by (induction line arbitrary: acc) auto

lemma removeEOL_filter: "removeEOL line = filter (\<lambda>b. b \<noteq> 13 \<and> b \<noteq> 10) line"
  by (simp add: removeEOL_def removeEOL_foldl)

section \<open>Facts about the operations of the handle\<close>

lemma Read_open:
  "portIsOpen sp \<Longrightarrow> Read sp = (case buff sp of [] \<Rightarrow> ((0, Some EOF), sp\<lparr>buff := []\<rparr>)
      | c # cs \<Rightarrow> ((c, None), sp\<lparr>buff := cs\<rparr>))"
  by (simp add: Read_def Buffer_ReadByte_def split: list.splits)

lemma Read_closed: "\<not> portIsOpen sp \<Longrightarrow> Read sp = ((0, Some ErrNotOpen), sp)"
  by (simp add: Read_def)

lemma ReadLine_closed: "\<not> portIsOpen sp \<Longrightarrow> ReadLine sp = (([], Some ErrNotOpen), sp)"
  by (simp add: ReadLine_def)

lemma ReadLine_incomplete:
  "portIsOpen sp \<Longrightarrow> eol sp \<notin> set (buff sp) \<Longrightarrow> ReadLine sp = (([], Some EOF), sp\<lparr>buff := []\<rparr>)"
  by (simp add: ReadLine_def Buffer_ReadString_def IndexByte_None_iff[THEN iffD2])

lemma IndexByte_split:
  "IndexByte s c = Some i \<Longrightarrow>
     take (i + 1) s = takeWhile (\<lambda>b. b \<noteq> c) s @ [c] \<and> drop (i + 1) s = tl (dropWhile (\<lambda>b. b \<noteq> c) s)"
  by (induction s arbitrary: i) (auto split: if_splits)

lemma ReadLine_complete:
  assumes "portIsOpen sp" and "eol sp \<in> set (buff sp)"
  shows "ReadLine sp = ((removeEOL (takeWhile (\<lambda>b. b \<noteq> eol sp) (buff sp) @ [eol sp]), None),
                    sp\<lparr>buff := tl (dropWhile (\<lambda>b. b \<noteq> eol sp) (buff sp))\<rparr>)"
proof -
  obtain i where i: "IndexByte (buff sp) (eol sp) = Some i"
    using assms(2) IndexByte_None_iff[of "buff sp" "eol sp"] by auto
  from IndexByte_split[OF i] i assms(1) show ?thesis
    by (simp add: ReadLine_def Buffer_ReadString_def)
qed

lemma apply_op_law:
  assumes "apply_op sp x = (l, sp')" and "LineFailed EOF \<notin> set l"
  shows "consumed l @ buff sp' = buff sp @ appended [x] \<and> list_all faithful l"
proof (cases x)
  case (Append chunk)
  with assms show ?thesis by (auto simp: receive_def Buffer_Write_def)
next
  case DoRead
  show ?thesis
  proof (cases "portIsOpen sp")
    case True
    with assms DoRead show ?thesis
      by (auto simp: Read_open removed_def split: list.splits)
  next
    case False
    with assms DoRead show ?thesis by (auto simp: Read_closed)
  qed
next
  case DoReadLine
  show ?thesis
  proof (cases "portIsOpen sp")
    case False
    with assms DoReadLine show ?thesis by (auto simp: ReadLine_closed)
  next
    case True
    show ?thesis
    proof (cases "eol sp \<in> set (buff sp)")
      case False
      with True assms DoReadLine show ?thesis by (auto simp: ReadLine_incomplete)
    next
      case e: True
      let ?P = "\<lambda>b. b \<noteq> eol sp"
      have hd: "dropWhile ?P (buff sp) = eol sp # tl (dropWhile ?P (buff sp))"
        using e by (metis (mono_tags, lifting) dropWhile_eq_Nil_conv hd_dropWhile list.collapse)
      have split: "buff sp = takeWhile ?P (buff sp) @ eol sp # tl (dropWhile ?P (buff sp))"
        using hd takeWhile_dropWhile_id[of ?P "buff sp"] by simp
      have len: "length (buff sp) - length (tl (dropWhile ?P (buff sp))) = Suc (length (takeWhile ?P (buff sp)))"
        by (subst split) simp
      have rem: "take (Suc (length (takeWhile ?P (buff sp)))) (buff sp) = takeWhile ?P (buff sp) @ [eol sp]"
        by (subst split) simp
      from True e assms DoReadLine len rem split show ?thesis
        by (auto simp: ReadLine_complete removed_def)
    qed
  qed
qed

lemma run_ops_law:
  "run_ops sp ops = (log, sp') \<Longrightarrow> LineFailed EOF \<notin> set log \<Longrightarrow>
     consumed log @ buff sp' = buff sp @ appended ops \<and> list_all faithful log"
proof (induction ops arbitrary: sp log)
  case Nil
  then show ?case by simp
next
  case (Cons x xs)
  obtain l1 sp1 where a: "apply_op sp x = (l1, sp1)" by (cases "apply_op sp x")
  obtain l2 sp2 where r: "run_ops sp1 xs = (l2, sp2)" by (cases "run_ops sp1 xs")
  from Cons.prems(1) a r have log: "log = l1 @ l2" and sp2: "sp2 = sp'" by simp_all
  from Cons.prems(2) log have n1: "LineFailed EOF \<notin> set l1" and n2: "LineFailed EOF \<notin> set l2"
    by simp_all
  from apply_op_law[OF a n1]
  have h1: "consumed l1 @ buff sp1 = buff sp @ appended [x]" and f1: "list_all faithful l1"
    by simp_all
  from Cons.IH[OF r[unfolded sp2] n2]
  have h2: "consumed l2 @ buff sp' = buff sp1 @ appended xs" and f2: "list_all faithful l2"
    by simp_all
  have c: "consumed (l1 @ l2) = consumed l1 @ consumed l2" for l1 l2
    by (induction l1 rule: consumed.induct) simp_all
  have ap: "appended (x # xs) = appended [x] @ appended xs"
    by (cases x) simp_all
  have "consumed log @ buff sp' = consumed l1 @ (consumed l2 @ buff sp')"
    by (simp add: log c)
  also have "\<dots> = (consumed l1 @ buff sp1) @ appended xs"
    by (simp add: h2)
  also have "\<dots> = buff sp @ appended (x # xs)"
    by (simp only: h1 ap append_assoc)
  finally show ?case using f1 f2 log by simp
qed

lemma returned_consumed:
  "list_all faithful log \<Longrightarrow>
     filter (\<lambda>b. b \<noteq> 13 \<and> b \<noteq> 10) (returned log) = filter (\<lambda>b. b \<noteq> 13 \<and> b \<noteq> 10) (consumed log)"
  by (induction log rule: returned.induct) (simp_all add: removeEOL_filter)

lemma opened_fields:
  "portIsOpen opened" "buff opened = []" "eol opened = 10" "port opened = Some dev_ok"
  "rxChar opened = OpenChan"
  by (simp_all add: opened_def Open_def New_def Buffer_Reset_def EOL_DEFAULT_def)

lemma opened_failing_fields:
  "portIsOpen opened_failing" "buff opened_failing = []" "eol opened_failing = 10"
  "port opened_failing = Some dev_failing"
  by (simp_all add: opened_failing_def Open_def New_def Buffer_Reset_def EOL_DEFAULT_def)

lemma receive_fields:
  "portIsOpen (receive sp c) = portIsOpen sp" "buff (receive sp c) = buff sp @ c"
  "eol (receive sp c) = eol sp" "port (receive sp c) = port sp"
  by (simp_all add: receive_def Buffer_Write_def)

lemma EOL_fields:
  "portIsOpen (EOL sp c) = portIsOpen sp" "buff (EOL sp c) = buff sp"
  "eol (EOL sp c) = c" "port (EOL sp c) = port sp"
  by (simp_all add: EOL_def)

section \<open>A line that is not complete\<close>

text \<open>
  Claim C1 says that \<open>ReadLine\<close> on a buffer without the end-of-line byte fails and
  leaves the buffer unchanged. It fails, but \<open>bytes.Buffer.ReadString\<close> has by then
  taken every unread byte, and \<open>ReadLine\<close> returns the empty string in place of them:
  on an open handle that has received \<open>"abc"\<close>, three bytes are unread before the call
  and none after it, and the call returns \<open>("", io.EOF)\<close>.
\<close>

theorem ReadLine_without_EOL_empties_buffer:
  "Available (receive opened [97, 98, 99]) = 3
   \<and> fst (ReadLine (receive opened [97, 98, 99])) = ([], Some EOF)
   \<and> Available (snd (ReadLine (receive opened [97, 98, 99]))) = 0"
  by (simp add: ReadLine_incomplete opened_fields receive_fields Available_def Buffer_Len_def)

section \<open>What a line read returns\<close>

text \<open>
  With the default end-of-line byte the example of the specification holds: from
  \<open>"abc\r\ndef"\<close> the call returns \<open>"abc"\<close> and leaves \<open>"def"\<close> unread.
\<close>

lemma ReadLine_default_example:
  "fst (ReadLine (receive opened [97, 98, 99, 13, 10, 100, 101, 102])) = ([97, 98, 99], None)
   \<and> buff (snd (ReadLine (receive opened [97, 98, 99, 13, 10, 100, 101, 102]))) = [100, 101, 102]"
  by (simp add: ReadLine_complete opened_fields receive_fields removeEOL_filter)

text \<open>
  Claim C6 says that, for every configured end-of-line byte, a successful \<open>ReadLine\<close>
  returns the bytes up to the first end-of-line byte without carriage returns and
  without the end-of-line byte itself. \<open>removeEOL\<close> drops the bytes 13 and 10, whatever
  \<open>sp.eol\<close> is: with the end-of-line byte set to \<open>';'\<close> (59) and \<open>"a;b"\<close> buffered, the
  call returns \<open>"a;"\<close>, the end-of-line byte included, and leaves \<open>"b"\<close>.
\<close>

theorem ReadLine_keeps_configured_EOL:
  "fst (ReadLine (receive (EOL opened 59) [97, 59, 98])) = ([97, 59], None)
   \<and> buff (snd (ReadLine (receive (EOL opened 59) [97, 59, 98]))) = [98]"
  by (simp add: ReadLine_complete opened_fields receive_fields EOL_fields removeEOL_filter)

section \<open>Writing\<close>

text \<open>
  Claim C7 says that every write-path operation on an open handle returns an error of
  the transport's write unchanged. \<open>Write\<close> does; \<open>Print\<close> (and with it \<open>Println\<close> and
  \<open>Printf\<close>) calls \<open>sp.port.Write\<close> and drops its results: on a device whose write fails
  with an error, \<open>Write\<close> returns that error and \<open>Print\<close> returns nil after the same call
  on the transport.
\<close>

theorem Print_drops_write_error:
  "fst (Write opened_failing [65]) = (0, Some (ErrTransport 5))
   \<and> fst (Print opened_failing [65]) = None
   \<and> transport_calls (snd (Print opened_failing [65])) = [WriteCall [65]]"
  by (simp add: Write_def Print_def opened_failing_fields Transport_Write_def dev_failing_def
        transport_calls_def)

text \<open>
  Claim C8 says that \<open>Println\<close> sends the string followed by a carriage return and the
  configured end-of-line byte. As stated it fails: with the end-of-line byte set to
  tab (9), \<open>Println "a"\<close> sends \<open>"a\r\n"\<close>.
\<close>

theorem Println_ignores_configured_EOL:
  "eol (EOL opened 9) = 9
   \<and> transport_calls (snd (Println (EOL opened 9) [97])) = [WriteCall [97, 13, 10]]"
  by (simp add: Println_def Print_def EOL_fields opened_fields Transport_Write_def dev_ok_def
        transport_calls_def)

text \<open>
  Claim C8, amended: on an open handle, for every string \<open>s\<close> and every configured
  end-of-line byte, \<open>Println\<close> makes exactly one call on the transport, a write of \<open>s\<close>
  followed by a carriage return (13) and a newline (10), and returns nil.
\<close>

theorem Println_sends_CR_LF:
  assumes "portIsOpen sp" and "port sp = Some t"
  shows "fst (Println sp s) = None
         \<and> transport_calls (snd (Println sp s)) = calls t @ [WriteCall (s @ [13, 10])]"
  using assms by (simp add: Println_def Print_def Transport_Write_def transport_calls_def)

theorem Println_sends_CR_LF_witness:
  "portIsOpen (EOL opened 9) \<and> port (EOL opened 9) = Some dev_ok
   \<and> fst (Println (EOL opened 9) [97]) = None
   \<and> transport_calls (snd (Println (EOL opened 9) [97])) = calls dev_ok @ [WriteCall ([97] @ [13, 10])]"
  using Println_sends_CR_LF[of "EOL opened 9" dev_ok "[97]"]
  by (simp add: EOL_fields opened_fields)

lemma apply_op_whole:
  assumes "apply_op sp x = (l, sp')"
  shows "list_all (whole (eol sp)) l \<and> eol sp' = eol sp"
proof (cases x)
  case (Append chunk)
  with assms show ?thesis by (auto simp: receive_def)
next
  case DoRead
  show ?thesis
  proof (cases "portIsOpen sp")
    case True
    with assms DoRead show ?thesis
      by (auto simp: Read_open removed_def split: list.splits)
  next
    case False
    with assms DoRead show ?thesis by (auto simp: Read_closed)
  qed
next
  case DoReadLine
  show ?thesis
  proof (cases "portIsOpen sp")
    case False
    with assms DoReadLine show ?thesis by (auto simp: ReadLine_closed)
  next
    case True
    show ?thesis
    proof (cases "eol sp \<in> set (buff sp)")
      case False
      with True assms DoReadLine show ?thesis by (auto simp: ReadLine_incomplete)
    next
      case e: True
      let ?P = "\<lambda>b. b \<noteq> eol sp"
      have hd: "dropWhile ?P (buff sp) = eol sp # tl (dropWhile ?P (buff sp))"
        using e by (metis (mono_tags, lifting) dropWhile_eq_Nil_conv hd_dropWhile list.collapse)
      have split: "buff sp = takeWhile ?P (buff sp) @ eol sp # tl (dropWhile ?P (buff sp))"
        using hd takeWhile_dropWhile_id[of ?P "buff sp"] by simp
      have len: "length (buff sp) - length (tl (dropWhile ?P (buff sp))) = Suc (length (takeWhile ?P (buff sp)))"
        by (subst split) simp
      have rem: "take (Suc (length (takeWhile ?P (buff sp)))) (buff sp) = takeWhile ?P (buff sp) @ [eol sp]"
        by (subst split) simp
      have no: "eol sp \<notin> set (takeWhile ?P (buff sp))"
        by (auto dest: set_takeWhileD)
      from True e assms DoReadLine len rem no show ?thesis
        by (auto simp: ReadLine_complete removed_def)
    qed
  qed
qed

lemma run_ops_whole:
  "run_ops sp ops = (log, sp') \<Longrightarrow> list_all (whole (eol sp)) log \<and> eol sp' = eol sp"
proof (induction ops arbitrary: sp log)
  case Nil
  then show ?case by simp
next
  case (Cons x xs)
  obtain l1 sp1 where a: "apply_op sp x = (l1, sp1)" by (cases "apply_op sp x")
  obtain l2 sp2 where r: "run_ops sp1 xs = (l2, sp2)" by (cases "run_ops sp1 xs")
  from Cons.prems a r have log: "log = l1 @ l2" and sp2: "sp2 = sp'" by simp_all
  from apply_op_whole[OF a] have w1: "list_all (whole (eol sp)) l1" and e1: "eol sp1 = eol sp"
    by simp_all
  from Cons.IH[OF r[unfolded sp2]] e1 have "list_all (whole (eol sp)) l2" and "eol sp' = eol sp"
    by simp_all
  with w1 log show ?case by simp
qed

lemma faithful_stripped: "list_all faithful log \<Longrightarrow> list_all (stripped 10) log"
proof (induction log)
  case Nil
  then show ?case by simp
next
  case (Cons x xs)
  then show ?case by (cases x) (simp_all add: removeEOL_filter)
qed

section \<open>The order of the bytes read\<close>

text \<open>
  Claim C2 says that the bytes returned by the successful \<open>Read\<close> and \<open>ReadLine\<close> calls,
  concatenated, reproduce the appended bytes with no byte lost. As stated it fails:
  after \<open>"a\n"\<close> is appended to the empty buffer of an open handle, \<open>ReadLine\<close> returns
  \<open>"a"\<close> and nothing is left unread, so the line end is in no returned value.
\<close>

theorem returned_bytes_lack_line_end:
  "appended [Append [97, 10], DoReadLine] = [97, 10]
   \<and> returned (fst (run_ops opened [Append [97, 10], DoReadLine])) = [97]
   \<and> buff (snd (run_ops opened [Append [97, 10], DoReadLine])) = []"
  by (simp add: ReadLine_complete opened_fields receive_fields removeEOL_filter)

text \<open>
  Claim C2, amended: for every handle and every sequence of appended chunks, \<open>Read\<close>
  calls and \<open>ReadLine\<close> calls in which no \<open>ReadLine\<close> fails with \<open>io.EOF\<close>, the bytes
  removed by the successful calls, in call order, followed by the bytes still unread,
  are the bytes unread at the start followed by the appended chunks; each successful
  \<open>Read\<close> removes one byte and returns it, and each successful \<open>ReadLine\<close> removes the
  bytes up to and including the first end-of-line byte. With the default end-of-line
  byte, each successful \<open>ReadLine\<close> returns the bytes it removed without the carriage
  returns and without the end-of-line byte, so the returned bytes followed by the unread
  bytes are the appended sequence in order, up to carriage returns and end-of-line
  bytes.
\<close>

theorem extractions_keep_order:
  assumes "LineFailed EOF \<notin> set (fst (run_ops sp ops))"
  shows "consumed (fst (run_ops sp ops)) @ buff (snd (run_ops sp ops)) = buff sp @ appended ops
         \<and> list_all (whole (eol sp)) (fst (run_ops sp ops))
         \<and> (eol sp = EOL_DEFAULT \<longrightarrow>
              list_all (stripped (eol sp)) (fst (run_ops sp ops))
            \<and> filter (\<lambda>b. b \<noteq> 13 \<and> b \<noteq> eol sp) (returned (fst (run_ops sp ops)))
                @ filter (\<lambda>b. b \<noteq> 13 \<and> b \<noteq> eol sp) (buff (snd (run_ops sp ops)))
              = filter (\<lambda>b. b \<noteq> 13 \<and> b \<noteq> eol sp) (buff sp @ appended ops))"
proof -
  obtain log sp' where r: "run_ops sp ops = (log, sp')" by (cases "run_ops sp ops")
  with assms have n: "LineFailed EOF \<notin> set log" by simp
  from run_ops_law[OF r n]
  have c: "consumed log @ buff sp' = buff sp @ appended ops" and f: "list_all faithful log"
    by simp_all
  from run_ops_whole[OF r] have w: "list_all (whole (eol sp)) log" by simp
  have "filter (\<lambda>b. b \<noteq> 13 \<and> b \<noteq> 10) (returned log) @ filter (\<lambda>b. b \<noteq> 13 \<and> b \<noteq> 10) (buff sp')
          = filter (\<lambda>b. b \<noteq> 13 \<and> b \<noteq> 10) (consumed log @ buff sp')"
    by (simp add: returned_consumed[OF f])
  with c have e: "filter (\<lambda>b. b \<noteq> 13 \<and> b \<noteq> 10) (returned log) @ filter (\<lambda>b. b \<noteq> 13 \<and> b \<noteq> 10) (buff sp')
          = filter (\<lambda>b. b \<noteq> 13 \<and> b \<noteq> 10) (buff sp @ appended ops)" by simp
  from c w e faithful_stripped[OF f] r show ?thesis by (simp add: EOL_DEFAULT_def)
qed

theorem extractions_keep_order_witness:
  "LineFailed EOF \<notin> set (fst (run_ops opened [Append [97, 13, 10, 98], DoReadLine, DoRead, Append [99]]))
   \<and> eol opened = EOL_DEFAULT
   \<and> fst (run_ops opened [Append [97, 13, 10, 98], DoReadLine, DoRead, Append [99]])
       = [LineRead [97, 13, 10] [97], ByteRead [98] 98]
   \<and> consumed (fst (run_ops opened [Append [97, 13, 10, 98], DoReadLine, DoRead, Append [99]]))
       @ buff (snd (run_ops opened [Append [97, 13, 10, 98], DoReadLine, DoRead, Append [99]]))
       = buff opened @ appended [Append [97, 13, 10, 98], DoReadLine, DoRead, Append [99]]
   \<and> list_all (whole (eol opened)) (fst (run_ops opened [Append [97, 13, 10, 98], DoReadLine, DoRead, Append [99]]))
   \<and> list_all (stripped (eol opened)) (fst (run_ops opened [Append [97, 13, 10, 98], DoReadLine, DoRead, Append [99]]))"
proof -
  have l: "fst (run_ops opened [Append [97, 13, 10, 98], DoReadLine, DoRead, Append [99]])
       = [LineRead [97, 13, 10] [97], ByteRead [98] 98]"
    by (simp add: ReadLine_complete Read_open opened_fields receive_fields removeEOL_filter
          removed_def split_beta)
  then have n: "LineFailed EOF \<notin> set (fst (run_ops opened [Append [97, 13, 10, 98], DoReadLine, DoRead, Append [99]]))"
    by simp
  have d: "eol opened = EOL_DEFAULT" by (simp add: opened_fields EOL_DEFAULT_def)
  from extractions_keep_order[OF n] l n d show ?thesis by blast
qed

lemma closed_after_open:
  "\<not> portIsOpen (snd (Close opened))"
  "transport_calls (snd (Close opened)) = [CloseCall]"
  "port (snd (Close opened)) = Some (dev_ok\<lparr>calls := [CloseCall]\<rparr>)"
  by (simp_all add: Close_def opened_fields close_chan_def Transport_Close_def dev_ok_def
        transport_calls_def)

section \<open>A closed handle\<close>

text \<open>
  Claim C3 says that every public operation on a closed handle fails with the
  not-open error. As stated it fails: \<open>Close\<close> on a handle that is not open returns
  nil.
\<close>

theorem Close_on_closed_handle_succeeds:
  "\<not> portIsOpen New \<and> fst (Close New) = None"
  by (simp add: New_def Close_def)

text \<open>
  Claim C3, amended: on a closed handle \<open>Write\<close>, \<open>Print\<close>, \<open>Println\<close>, \<open>Printf\<close>, \<open>Read\<close>,
  \<open>ReadLine\<close> and \<open>WaitForRegexTimeout\<close> fail with the not-open error, and \<open>Close\<close>
  returns nil; each leaves the handle as it was, its transport included, so none calls
  the transport.
\<close>

theorem closed_handle_refuses:
  assumes "\<not> portIsOpen sp"
  shows "Write sp data = ((0, Some ErrNotOpen), sp)
       \<and> Print sp str = (Some ErrNotOpen, sp)
       \<and> Println sp str = (Some ErrNotOpen, sp)
       \<and> Printf Sprintf sp format args = (Some ErrNotOpen, sp)
       \<and> Read sp = ((0, Some ErrNotOpen), sp)
       \<and> ReadLine sp = (([], Some ErrNotOpen), sp)
       \<and> WaitForRegexTimeout compile sp exp sched = (Some ([], Some ErrNotOpen), sp)
       \<and> Close sp = (None, sp)"
  using assms
  by (simp add: Write_def Print_def Println_def Printf_def Read_def ReadLine_def
        WaitForRegexTimeout_def Close_def)

theorem closed_handle_refuses_witness:
  "\<not> portIsOpen (snd (Close opened))
   \<and> Write (snd (Close opened)) [65] = ((0, Some ErrNotOpen), snd (Close opened))
   \<and> Print (snd (Close opened)) [65] = (Some ErrNotOpen, snd (Close opened))
   \<and> Read (snd (Close opened)) = ((0, Some ErrNotOpen), snd (Close opened))
   \<and> ReadLine (snd (Close opened)) = (([], Some ErrNotOpen), snd (Close opened))
   \<and> WaitForRegexTimeout compile_literal (snd (Close opened)) [79, 75] [PollerStep, TimerFires]
        = (Some ([], Some ErrNotOpen), snd (Close opened))
   \<and> transport_calls (snd (Close opened)) = [CloseCall]"
  using closed_handle_refuses[OF closed_after_open(1), of "[65]" "[65]" "\<lambda>f a. f" "[]" "[]::nat list" compile_literal "[79, 75]" "[PollerStep, TimerFires]"]
  by (simp add: closed_after_open)

text \<open>
  \<open>SendFile\<close> has no such check: on a handle closed after use it writes to the
  transport.
\<close>

lemma SendFile_writes_when_closed:
  "fst (SendFile (snd (Close opened)) (Inr [65])) = None
   \<and> transport_calls (snd (SendFile (snd (Close opened)) (Inr [65]))) = [CloseCall, WriteCall [65]]"
  by (simp add: SendFile_def closed_after_open SendFile_loop.simps[of _ _ 0]
        SendFile_loop.simps[of _ _ 512] Transport_Write_def dev_ok_def transport_calls_def)

section \<open>A handle that was never opened\<close>

lemma call_api_closed:
  assumes "\<not> portIsOpen sp"
  shows "\<not> portIsOpen (call_api Sprintf compile sp c) \<and> buff (call_api Sprintf compile sp c) = buff sp"
proof (cases c)
  case (CallSendFile readFile)
  with assms show ?thesis
    by (simp add: SendFile_def split: sum.splits option.splits prod.splits)
next
  case (CallEOL b)
  with assms show ?thesis by (simp add: EOL_def)
qed (use assms in \<open>simp_all add: Write_def Print_def Println_def Printf_def Read_def ReadLine_def
        WaitForRegexTimeout_def Close_def\<close>)

lemma call_all_closed:
  "\<not> portIsOpen sp \<Longrightarrow>
     \<not> portIsOpen (call_all Sprintf compile sp cs) \<and> buff (call_all Sprintf compile sp cs) = buff sp"
proof (induction cs arbitrary: sp)
  case Nil
  then show ?case by simp
next
  case (Cons c cs)
  from call_api_closed[OF Cons.prems, of Sprintf compile c]
  have 1: "\<not> portIsOpen (call_api Sprintf compile sp c)"
    and 2: "buff (call_api Sprintf compile sp c) = buff sp" by simp_all
  from Cons.IH[OF 1] 2 show ?case by simp
qed

text \<open>
  Claim C10: a handle made by \<open>New\<close> has 256 unread zero bytes, so \<open>Available\<close> returns
  256; it still does after any sequence of calls of the other public operations, and
  after an \<open>Open\<close> that fails; after an \<open>Open\<close> that succeeds \<open>Available\<close> returns 0.
\<close>

theorem fresh_handle_has_256_unread:
  "Available New = 256
   \<and> buff New = replicate 256 0
   \<and> Available (call_all Sprintf compile New cs) = 256
   \<and> (Open openPort (call_all Sprintf compile New cs) nm bd timeout = (None, sp')
        \<longrightarrow> Available sp' = 0)
   \<and> (Open openPort (call_all Sprintf compile New cs) nm bd timeout = (Some e, sp')
        \<longrightarrow> Available sp' = 256)"
proof -
  have n: "\<not> portIsOpen New" by (simp add: New_def)
  have b: "buff New = replicate 256 0" by (simp add: New_def NewBuffer_def)
  from call_all_closed[OF n, of Sprintf compile cs]
  have c: "\<not> portIsOpen (call_all Sprintf compile New cs)"
    and d: "buff (call_all Sprintf compile New cs) = replicate 256 0" by (simp_all add: b)
  have 1: "Available New = 256" by (simp add: Available_def Buffer_Len_def b)
  have 3: "Available (call_all Sprintf compile New cs) = 256"
    by (simp add: Available_def Buffer_Len_def d)
  have 4: "Open openPort (call_all Sprintf compile New cs) nm bd timeout = (None, sp')
        \<longrightarrow> Available sp' = 0"
    using c by (auto simp: Open_def Available_def Buffer_Len_def Buffer_Reset_def Let_def
        split: sum.splits)
  have 5: "Open openPort (call_all Sprintf compile New cs) nm bd timeout = (Some e, sp')
        \<longrightarrow> Available sp' = 256"
    using c 3 by (auto simp: Open_def Let_def split: sum.splits)
  from 1 b 3 4 5 show ?thesis by blast
qed

theorem fresh_handle_has_256_unread_witness:
  "Available (call_all (\<lambda>f (a::nat list). f) compile_literal New [CallRead, CallReadLine, CallWrite [65], CallClose]) = 256
   \<and> Open (\<lambda>nm bd t. Inr dev_ok) (call_all (\<lambda>f (a::nat list). f) compile_literal New [CallRead, CallReadLine, CallWrite [65], CallClose]) [116] 9600 []
        = (None, opened\<lparr>name := [116]\<rparr>)
   \<and> Available (opened\<lparr>name := [116]\<rparr>) = 0
   \<and> fst (Open (\<lambda>nm bd t. Inl (ErrTransport 2)) New [116] 9600 []) = Some (ErrUnableToOpen [116] (ErrTransport 2))
   \<and> Available (snd (Open (\<lambda>nm bd t. Inl (ErrTransport 2)) New [116] 9600 [])) = 256"
proof -
  let ?cs = "[CallRead, CallReadLine, CallWrite [65], CallClose] :: nat api list"
  let ?S = "\<lambda>(f::gostring) (a::nat list). f"
  have e: "call_all ?S compile_literal New ?cs = New"
    by (simp add: New_def Read_def ReadLine_def Write_def Close_def)
  have o: "Open (\<lambda>nm bd t. Inr dev_ok) (call_all ?S compile_literal New ?cs) [116] 9600 []
        = (None, opened\<lparr>name := [116]\<rparr>)"
    unfolding e by (simp add: opened_def Open_def New_def)
  have f: "Open (\<lambda>nm bd t. Inl (ErrTransport 2)) (call_all ?S compile_literal New []) [116] 9600 []
        = (Some (ErrUnableToOpen [116] (ErrTransport 2)), New)"
    by (simp add: Open_def New_def)
  from fresh_handle_has_256_unread[of ?S compile_literal ?cs "\<lambda>nm bd t. Inr dev_ok" "[116]" 9600 "[]" "opened\<lparr>name := [116]\<rparr>"]
    fresh_handle_has_256_unread[of ?S compile_literal "[]" "\<lambda>nm bd t. Inl (ErrTransport 2)" "[116]" 9600 "[]" New "ErrUnableToOpen [116] (ErrTransport 2)"]
    o f
  show ?thesis by simp
qed

section \<open>Facts about waiting for a pattern\<close>

lemma wait_run_append: "wait_run re s (es @ fs) = wait_run re (wait_run re s es) fs"
  by (induction es arbitrary: s) simp_all

lemma deliver_fields:
  "poller (deliver s m) = poller s" "timeExpired (deliver s m) = timeExpired s"
  "handle (deliver s m) = handle s"
  by (simp_all add: deliver_def split: caller_pc.splits)

lemma deliver_caller:
  "caller (deliver s m) = (case caller s of InSelect \<Rightarrow> Returned (m, None) | c \<Rightarrow> c)"
  by (simp add: deliver_def split: caller_pc.splits)

lemma Returned_step: "caller s = Returned r \<Longrightarrow> caller (wait_step re s e) = Returned r"
  by (cases e) (auto simp: deliver_caller split: poller_pc.splits prod.splits option.splits list.splits)

lemma Returned_run: "caller s = Returned r \<Longrightarrow> caller (wait_run re s es) = Returned r"
  by (induction es arbitrary: s) (simp_all add: Returned_step)

lemma Finished_step: "poller s = Finished \<Longrightarrow> poller (wait_step re s e) = Finished"
  by (cases e) (auto split: caller_pc.splits)

lemma timeExpired_step: "timeExpired s \<Longrightarrow> timeExpired (wait_step re s e)"
  by (cases e) (auto simp: deliver_fields split: caller_pc.splits poller_pc.splits prod.splits option.splits list.splits)

lemma timeExpired_run: "timeExpired s \<Longrightarrow> timeExpired (wait_run re s es)"
  by (induction es arbitrary: s) (simp_all add: timeExpired_step)


lemma wait_init_fields:
  "handle (wait_init sp) = sp" "\<not> timeExpired (wait_init sp)" "c1 (wait_init sp) = None"
  "poller (wait_init sp) = AtLoopCheck" "caller (wait_init sp) = InSelect"
  by (simp_all add: wait_init_def)








text \<open>The flag is only set by the caller when it returns the timeout error.\<close>

lemma flag_step:
  "timeExpired s \<longrightarrow> caller s = Returned ([], Some ErrTimeout) \<Longrightarrow>
   timeExpired (wait_step re s e) \<longrightarrow> caller (wait_step re s e) = Returned ([], Some ErrTimeout)"
  by (cases e) (auto simp: deliver_caller deliver_fields split: poller_pc.splits prod.splits option.splits list.splits caller_pc.splits)

lemma flag_run:
  "timeExpired s \<longrightarrow> caller s = Returned ([], Some ErrTimeout) \<Longrightarrow>
   timeExpired (wait_run re s es) \<longrightarrow> caller (wait_run re s es) = Returned ([], Some ErrTimeout)"
proof (induction es arbitrary: s)
  case Nil
  then show ?case by simp
next
  case (Cons e es)
  from Cons.IH[OF flag_step[OF Cons.prems]] show ?case by simp
qed

text \<open>Once the select has taken the timeout case, the call can only return the timeout error.\<close>

lemma timed_out_step: "timed_out s \<Longrightarrow> timed_out (wait_step re s e)"
  unfolding timed_out_def
  by (cases e) (auto simp: deliver_caller deliver_fields split: poller_pc.splits prod.splits option.splits list.splits caller_pc.splits)

lemma timed_out_run: "timed_out s \<Longrightarrow> timed_out (wait_run re s es)"
  by (induction es arbitrary: s) (simp_all add: timed_out_step)

lemma timed_out_CallerStep:
  "timed_out s \<Longrightarrow> caller (wait_step re s CallerStep) = Returned ([], Some ErrTimeout)
      \<and> timeExpired (wait_step re s CallerStep)"
  unfolding timed_out_def by auto

lemma timed_out_returns:
  "timed_out s \<Longrightarrow> CallerStep \<in> set es \<Longrightarrow>
     caller (wait_run re s es) = Returned ([], Some ErrTimeout) \<and> timeExpired (wait_run re s es)"
proof (induction es arbitrary: s)
  case Nil
  then show ?case by simp
next
  case (Cons e es)
  show ?case
  proof (cases "e = CallerStep")
    case True
    from timed_out_CallerStep[OF Cons.prems(1), of re]
    have "caller (wait_step re s e) = Returned ([], Some ErrTimeout)"
      and "timeExpired (wait_step re s e)" using True by simp_all
    then show ?thesis by (simp add: Returned_run timeExpired_run)
  next
    case False
    with Cons.prems(2) have "CallerStep \<in> set es" by simp
    from Cons.IH[OF timed_out_step[OF Cons.prems(1)] this] show ?thesis by simp
  qed
qed

text \<open>With the flag set, the polling goroutine executes at most the body it is in.\<close>

lemma begun_after_flag:
  "timeExpired s \<Longrightarrow> begun re s es \<le> (if poller s = InBody then 1 else 0)"
proof (induction es arbitrary: s)
  case Nil
  then show ?case by simp
next
  case (Cons e es)
  have t: "timeExpired (wait_step re s e)" by (rule timeExpired_step[OF Cons.prems])
  note ih = Cons.IH[OF t]
  show ?case
  proof (cases "e = PollerStep")
    case True
    have "poller (wait_step re s PollerStep) \<noteq> InBody"
      using Cons.prems
      by (auto simp: deliver_fields split: poller_pc.splits prod.splits option.splits list.splits)
    with ih True show ?thesis by auto
  next
    case False
    then have "poller (wait_step re s e) = poller s"
      by (cases e) (auto split: caller_pc.splits)
    with ih False show ?thesis by auto
  qed
qed

lemma bodies_after_flag: "timeExpired s \<Longrightarrow> bodies re s es \<le> 1"
  using begun_after_flag[of s re es]
  by (auto simp: bodies_def split: poller_pc.splits if_splits)

lemma loop_check_after_flag:
  "timeExpired s \<Longrightarrow> poller s = AtLoopCheck \<Longrightarrow> poller (wait_step re s PollerStep) = Finished"
  by simp

lemma poller_stops_after_flag:
  "timeExpired s \<Longrightarrow>
     steps_left (poller (wait_run re s es)) \<le> steps_left (poller s) - length (filter (\<lambda>e. e = PollerStep) es)"
proof (induction es arbitrary: s)
  case Nil
  then show ?case by simp
next
  case (Cons e es)
  have t: "timeExpired (wait_step re s e)" by (rule timeExpired_step[OF Cons.prems])
  note ih = Cons.IH[OF t]
  show ?case
  proof (cases "e = PollerStep")
    case True
    have "steps_left (poller (wait_step re s PollerStep)) \<le> steps_left (poller s) - 1"
      using Cons.prems
      by (auto simp: deliver_fields split: poller_pc.splits prod.splits option.splits list.splits)
    with ih True show ?thesis by simp
  next
    case False
    then have "poller (wait_step re s e) = poller s"
      by (cases e) (auto split: caller_pc.splits)
    with ih False show ?thesis by simp
  qed
qed

text \<open>
  Claim C5: if the timer fires while the \<open>select\<close> is still blocked (no match has been
  delivered), the call never returns a match; once the caller has run, the call has
  returned the timeout error and the flag is set, the polling goroutine finishes at its
  next loop check, it executes statements of at most one more loop body (the one it is
  in), it has finished after two of its steps, and the call's result stays the timeout
  error whatever the polling goroutine finds afterwards.
\<close>

theorem timeout_wins_and_stops_polling:
  assumes "portIsOpen sp" and "compile exp = Some re"
    and "caller (wait_run re (wait_init sp) es0) = InSelect"
  shows "result (wait_run re (wait_init sp) (es0 @ TimerFires # es)) \<noteq> Some (m, None)
    \<and> (CallerStep \<in> set es \<longrightarrow>
          fst (WaitForRegexTimeout compile sp exp (es0 @ TimerFires # es)) = Some ([], Some ErrTimeout)
        \<and> timeExpired (wait_run re (wait_init sp) (es0 @ TimerFires # es))
        \<and> (poller (wait_run re (wait_init sp) (es0 @ TimerFires # es)) = AtLoopCheck \<longrightarrow>
             poller (wait_step re (wait_run re (wait_init sp) (es0 @ TimerFires # es)) PollerStep) = Finished)
        \<and> bodies re (wait_run re (wait_init sp) (es0 @ TimerFires # es)) es' \<le> 1
        \<and> (2 \<le> length (filter (\<lambda>e. e = PollerStep) es') \<longrightarrow>
             poller (wait_run re (wait_init sp) (es0 @ TimerFires # es @ es')) = Finished)
        \<and> fst (WaitForRegexTimeout compile sp exp (es0 @ TimerFires # es @ es')) = Some ([], Some ErrTimeout))"
proof -
  let ?before = "wait_run re (wait_init sp) es0"
  let ?s = "wait_run re (wait_init sp) (es0 @ TimerFires # es)"
  have t0: "timed_out (wait_step re ?before TimerFires)"
    using assms(3) by (simp add: timed_out_def)
  have s: "?s = wait_run re (wait_step re ?before TimerFires) es"
    by (simp add: wait_run_append)
  have t: "timed_out ?s" unfolding s by (rule timed_out_run[OF t0])
  then have 1: "result ?s \<noteq> Some (m, None)"
    by (auto simp: timed_out_def result_def)
  have 2: "fst (WaitForRegexTimeout compile sp exp (es0 @ TimerFires # es)) = Some ([], Some ErrTimeout)
        \<and> timeExpired ?s
        \<and> (poller ?s = AtLoopCheck \<longrightarrow> poller (wait_step re ?s PollerStep) = Finished)
        \<and> bodies re ?s es' \<le> 1
        \<and> (2 \<le> length (filter (\<lambda>e. e = PollerStep) es') \<longrightarrow>
             poller (wait_run re (wait_init sp) (es0 @ TimerFires # es @ es')) = Finished)
        \<and> fst (WaitForRegexTimeout compile sp exp (es0 @ TimerFires # es @ es')) = Some ([], Some ErrTimeout)"
    if c: "CallerStep \<in> set es"
  proof -
    from timed_out_returns[OF t0 c, of re]
    have r: "caller ?s = Returned ([], Some ErrTimeout)" and f: "timeExpired ?s"
      unfolding s by simp_all
    have a: "fst (WaitForRegexTimeout compile sp exp (es0 @ TimerFires # es)) = Some ([], Some ErrTimeout)"
      using assms(1,2) r by (simp add: WaitForRegexTimeout_def Let_def result_def)
    have b: "poller ?s = AtLoopCheck \<longrightarrow> poller (wait_step re ?s PollerStep) = Finished"
      using f by simp
    have d: "bodies re ?s es' \<le> 1" by (rule bodies_after_flag[OF f])
    have s': "wait_run re (wait_init sp) (es0 @ TimerFires # es @ es') = wait_run re ?s es'"
      by (simp add: wait_run_append)
    have "steps_left (poller (wait_run re ?s es')) \<le> steps_left (poller ?s) - length (filter (\<lambda>e. e = PollerStep) es')"
      by (rule poller_stops_after_flag[OF f])
    moreover have "steps_left (poller ?s) \<le> 2" by (cases "poller ?s") simp_all
    ultimately have "2 \<le> length (filter (\<lambda>e. e = PollerStep) es') \<longrightarrow> steps_left (poller (wait_run re ?s es')) = 0"
      by auto
    then have e: "2 \<le> length (filter (\<lambda>e. e = PollerStep) es') \<longrightarrow>
             poller (wait_run re (wait_init sp) (es0 @ TimerFires # es @ es')) = Finished"
      unfolding s' by (cases "poller (wait_run re ?s es')") simp_all
    have "caller (wait_run re ?s es') = Returned ([], Some ErrTimeout)"
      by (rule Returned_run[OF r])
    then have g: "fst (WaitForRegexTimeout compile sp exp (es0 @ TimerFires # es @ es')) = Some ([], Some ErrTimeout)"
      using assms(1,2) unfolding s'[symmetric]
      by (simp add: WaitForRegexTimeout_def Let_def result_def)
    from a f b d e g show ?thesis by blast
  qed
  from 1 2 show ?thesis by blast
qed

theorem timeout_wins_and_stops_polling_witness:
  "portIsOpen opened \<and> compile_literal [79, 75] = Some (find_literal [79, 75])
   \<and> caller (wait_run (find_literal [79, 75]) (wait_init opened)
        [Arrive [110, 111, 10], PollerStep, PollerStep, PollerStep]) = InSelect
   \<and> poller (wait_run (find_literal [79, 75]) (wait_init opened)
        [Arrive [110, 111, 10], PollerStep, PollerStep, PollerStep]) = InBody
   \<and> fst (WaitForRegexTimeout compile_literal opened [79, 75]
        ([Arrive [110, 111, 10], PollerStep, PollerStep, PollerStep] @ TimerFires # [Arrive [79, 75, 10], CallerStep]))
       = Some ([], Some ErrTimeout)
   \<and> bodies (find_literal [79, 75])
        (wait_run (find_literal [79, 75]) (wait_init opened)
          ([Arrive [110, 111, 10], PollerStep, PollerStep, PollerStep] @ TimerFires # [Arrive [79, 75, 10], CallerStep]))
        [PollerStep, PollerStep] \<le> 1
   \<and> poller (wait_run (find_literal [79, 75]) (wait_init opened)
        ([Arrive [110, 111, 10], PollerStep, PollerStep, PollerStep] @ TimerFires # [Arrive [79, 75, 10], CallerStep]
           @ [PollerStep, PollerStep])) = Finished
   \<and> fst (WaitForRegexTimeout compile_literal opened [79, 75]
        ([Arrive [110, 111, 10], PollerStep, PollerStep, PollerStep] @ TimerFires # [Arrive [79, 75, 10], CallerStep]
           @ [PollerStep, PollerStep]))
       = Some ([], Some ErrTimeout)"
proof -
  let ?re = "find_literal [79, 75]"
  let ?es = "[Arrive [110, 111, 10], PollerStep, PollerStep, PollerStep]"
  have c: "compile_literal [79, 75] = Some ?re" by (simp add: compile_literal_def)
  have st: "wait_run ?re (wait_init opened) ?es
      = (wait_init opened)\<lparr>handle := (receive opened [110, 111, 10])\<lparr>buff := []\<rparr>, poller := InBody\<rparr>"
    by (simp add: wait_init_fields ReadLine_complete receive_fields opened_fields removeEOL_filter)
  have h: "caller (wait_run ?re (wait_init opened) ?es) = InSelect"
    and p: "poller (wait_run ?re (wait_init opened) ?es) = InBody"
    unfolding st by (simp_all add: wait_init_fields)
  have a: "CallerStep \<in> set [Arrive [79, 75, 10], CallerStep]" by simp
  have b: "2 \<le> length (filter (\<lambda>e. e = PollerStep) [PollerStep, PollerStep])" by simp
  note t = timeout_wins_and_stops_polling[where compile = compile_literal and exp = "[79, 75]"
      and re = ?re and ?es0.0 = ?es and es = "[Arrive [79, 75, 10], CallerStep]"
      and es' = "[PollerStep, PollerStep]", OF opened_fields(1) c h]
  from t a b opened_fields(1) c h p show ?thesis by blast
qed

text \<open>A match found by the body in progress when the flag was set stays in \<open>c1\<close>.\<close>

lemma late_match_stays_in_channel:
  "c1 (wait_run (find_literal [79, 75]) (wait_init opened)
        ([Arrive [110, 111, 10], PollerStep, PollerStep, PollerStep] @ TimerFires # [Arrive [79, 75, 10], CallerStep]
           @ [PollerStep, PollerStep])) = Some [79, 75]"
  by (simp add: wait_init_fields ReadLine_complete receive_fields opened_fields removeEOL_filter
        deliver_def)

section \<open>Closing while the reader loop runs\<close>

lemma loop_run_append: "loop_run s (xs @ ys) = loop_run (loop_run s xs) ys"
  by (induction xs arbitrary: s) simp_all

text \<open>Run alone, the four steps of the closing thread are \<open>Close\<close>.\<close>

lemma closer_alone_is_Close:
  "shared (loop_run (loop_init sp d) [Closer, Closer, Closer, Closer]) = snd (Close sp)
   \<and> closer (loop_run (loop_init sp d) [Closer, Closer, Closer, Closer]) = CloseReturned (fst (Close sp))"
  by (auto simp: loop_init_def loop_step_def closer_step_def Close_def Let_def
        split: sum.splits option.splits prod.splits)

text \<open>Without a \<open>Close\<close>, the reader loop relays what it reads.\<close>

lemma reader_alone:
  "relayed (loop_run (loop_init opened [[65, 66]])
      [ReaderLoop, ReaderLoop, ReaderLoop, ReaderLoop, ReaderLoop, ReaderLoop, ReaderLoop]) = [65, 66]"
  by (simp add: loop_init_def loop_step_def reader_step_def next_range_def
        opened_fields receive_fields receive_def)

lemma before_send:
  "loop_run (loop_init opened [[65]])
      [ReaderLoop, ReaderLoop, ReaderLoop, ReaderLoop, Closer, Closer, Closer]
   = \<lparr>shared = (receive opened [65])\<lparr>portIsOpen := False, rxChar := ClosedChan\<rparr>,
      reader = AtSend 65 [], closer = AtPortClose, device = [], relayed = [], panicked = None\<rparr>"
  by (simp add: loop_init_def loop_step_def reader_step_def closer_step_def next_range_def
        opened_fields receive_fields close_chan_def receive_def)

text \<open>
  Claim C9 says that the reader loop never sends on \<open>sp.rxChar\<close> after \<open>Close\<close> has
  closed it, because it reads the flag before each send. The read and the send are two
  statements: when the reader loop has read the flag as true for the byte it holds and
  \<open>Close\<close> then clears the flag and closes the channel, the reader loop's next
  statement is the send, on the closed channel, and it panics.
\<close>

theorem reader_sends_on_closed_channel:
  "reader (loop_run (loop_init opened [[65]])
      [ReaderLoop, ReaderLoop, ReaderLoop, ReaderLoop, Closer, Closer, Closer]) = AtSend 65 []
   \<and> \<not> portIsOpen (shared (loop_run (loop_init opened [[65]])
      [ReaderLoop, ReaderLoop, ReaderLoop, ReaderLoop, Closer, Closer, Closer]))
   \<and> rxChar (shared (loop_run (loop_init opened [[65]])
      [ReaderLoop, ReaderLoop, ReaderLoop, ReaderLoop, Closer, Closer, Closer])) = ClosedChan
   \<and> panicked (loop_run (loop_init opened [[65]])
      [ReaderLoop, ReaderLoop, ReaderLoop, ReaderLoop, Closer, Closer, Closer]) = None
   \<and> panicked (loop_run (loop_init opened [[65]])
      ([ReaderLoop, ReaderLoop, ReaderLoop, ReaderLoop, Closer, Closer, Closer] @ [ReaderLoop]))
       = Some PanicSendOnClosedChannel"
  unfolding loop_run_append before_send
  by (simp add: loop_step_def reader_step_def)

end
